theory Spec2Isabelle
  imports Main "HOL-Library.Sublist"
begin

section \<open>Python values\<close>

text \<open>
  The class \<open>SuperDict\<close> of \<open>pytups/superdict.py\<close> is a subclass of Python's \<open>dict\<close>.
  Its keys are hashable values: \<open>None\<close>, integers, strings and tuples of such values.
  Its values are hashable values, lists and dictionaries. Two classes of dictionary occur,
  since the source tests \<open>isinstance(x, SuperDict)\<close> in one place and
  \<open>isinstance(x, dict)\<close> in others: every \<open>SuperDict\<close> is a \<open>dict\<close>, a plain \<open>dict\<close>
  is not a \<open>SuperDict\<close>.

  A dictionary keeps its entries in insertion order, so it is an association list whose
  keys are distinct. Floats, booleans, sets and user classes are outside the model.
\<close>

datatype key = KNone | KInt int | KStr string | KTup "key list"

datatype kind = Plain | Super

datatype val = VKey key | VList "val list" | VDict kind "(key \<times> val) list"

type_synonym dict = "(key \<times> val) list"

datatype error = KeyError "key list" | TypeError | IndexError | RecursionError

subsection \<open>The built-in dictionary operations\<close>

text \<open>\<open>d[k] = v\<close>: an existing key keeps its position, a new key goes to the end.\<close>

fun setitem :: "('k \<times> 'v) list \<Rightarrow> 'k \<Rightarrow> 'v \<Rightarrow> ('k \<times> 'v) list" where
  "setitem [] k v = [(k, v)]"
| "setitem ((k', v') # d) k v = (if k' = k then (k, v) # d else (k', v') # setitem d k v)"

text \<open>\<open>d.update(other)\<close> of the built-in \<open>dict\<close>, and a dictionary display or
  comprehension \<open>{k: v for ...}\<close>, which stores its pairs from left to right.\<close>

definition dict_update :: "('k \<times> 'v) list \<Rightarrow> ('k \<times> 'v) list \<Rightarrow> ('k \<times> 'v) list" where
  "dict_update d other = fold (\<lambda>(k, v) acc. setitem acc k v) other d"

definition dict_of :: "('k \<times> 'v) list \<Rightarrow> ('k \<times> 'v) list" where
  "dict_of kvs = dict_update [] kvs"

definition keys_l :: "('k \<times> 'v) list \<Rightarrow> 'k list" where
  "keys_l self = map fst self"

definition values_l :: "('k \<times> 'v) list \<Rightarrow> 'v list" where
  "values_l self = map snd self"

text \<open>\<open>self[k]\<close> on a dictionary raises \<open>KeyError(k)\<close> when the key is missing.\<close>

definition dict_getitem :: "dict \<Rightarrow> key \<Rightarrow> error + val" where
  "dict_getitem self k = (case map_of self k of None \<Rightarrow> Inl (KeyError [k]) | Some v \<Rightarrow> Inr v)"

section \<open>The methods of SuperDict\<close>

subsection \<open>fill\_with\_default\<close>

text \<open>
  \<^verbatim>\<open>
  def fill_with_default(self, keys, default=0):
      _dict = {k: default for k in keys}
      _dict.update(self)
      return SuperDict(_dict)
  \<close>
\<close>

definition fill_with_default :: "dict \<Rightarrow> key list \<Rightarrow> val \<Rightarrow> dict" where
  "fill_with_default self keys dflt =
     (let d = dict_of (map (\<lambda>k. (k, dflt)) keys)
      in dict_update d self)"

subsection \<open>get\_m\<close>

text \<open>
  \<^verbatim>\<open>
  def get_m(self, *args):
      try:
          d = self
          for i in args:
              d = d[i]
          return d
      except KeyError:
          return None
  \<close>
  \<open>d[i]\<close> is Python's subscription: a dictionary looks the key up and raises \<open>KeyError\<close>
  when it is missing; a list, a tuple and a string take an integer and raise
  \<open>IndexError\<close> out of range and \<open>TypeError\<close> for another key (slices are outside the
  model); \<open>None\<close> and an integer are not subscriptable and raise \<open>TypeError\<close>.
\<close>

text \<open>A sequence of length \<open>n\<close> takes the indices \<open>-n, ..., n - 1\<close>; a negative one
  counts from the end.\<close>

definition seq_index :: "'a list \<Rightarrow> int \<Rightarrow> error + 'a" where
  "seq_index xs i =
     (if i < - int (length xs) \<or> int (length xs) \<le> i then Inl IndexError
      else if i < 0 then Inr (xs ! nat (int (length xs) + i))
      else Inr (xs ! nat i))"

fun getitem :: "val \<Rightarrow> key \<Rightarrow> error + val" where
  "getitem (VDict kd d) i = dict_getitem d i"
| "getitem (VList xs) (KInt i) = seq_index xs i"
| "getitem (VList xs) i = Inl TypeError"
| "getitem (VKey (KTup ks)) (KInt i) = map_sum id VKey (seq_index ks i)"
| "getitem (VKey (KStr s)) (KInt i) = map_sum id (\<lambda>c. VKey (KStr [c])) (seq_index s i)"
| "getitem (VKey k) i = Inl TypeError"

fun get_m_loop :: "val \<Rightarrow> key list \<Rightarrow> error + val" where
  "get_m_loop d [] = Inr d"
| "get_m_loop d (i # args) =
     (case getitem d i of Inl e \<Rightarrow> Inl e | Inr d' \<Rightarrow> get_m_loop d' args)"

definition get_m :: "dict \<Rightarrow> key list \<Rightarrow> error + val" where
  "get_m self args =
     (case get_m_loop (VDict Super self) args of
        Inl (KeyError ks) \<Rightarrow> Inr (VKey KNone)
      | Inl e \<Rightarrow> Inl e
      | Inr d \<Rightarrow> Inr d)"

subsection \<open>list\_reverse\<close>

text \<open>
  \<^verbatim>\<open>
  def list_reverse(self):
      new_keys = list(set(val for l in self.values() for val in l))
      dict_out = SuperDict({k: [] for k in new_keys})
      for k, v in self.items():
          for el in v:
              dict_out[el].append(k)
      return dict_out
  \<close>
  \<open>for val in l\<close> iterates a value: a list and a tuple give their elements, a string its
  characters, a dictionary its keys; \<open>None\<close> and an integer raise \<open>TypeError\<close>. Putting an
  element into a set hashes it, which raises \<open>TypeError\<close> for a list or a dictionary.
  The order in which \<open>list(set(...))\<close> lists the elements is not specified by Python:
  it is the parameter \<open>unique\<close>, a function that lists the distinct elements of a list
  in some order; \<open>lists_distinct\<close> is all that is known of it.
\<close>

definition lists_distinct :: "('a list \<Rightarrow> 'a list) \<Rightarrow> bool" where
  "lists_distinct unique \<longleftrightarrow> (\<forall>xs. distinct (unique xs) \<and> set (unique xs) = set xs)"

fun iterate :: "val \<Rightarrow> error + val list" where
  "iterate (VList xs) = Inr xs"
| "iterate (VKey (KTup ks)) = Inr (map VKey ks)"
| "iterate (VKey (KStr s)) = Inr (map (\<lambda>c. VKey (KStr [c])) s)"
| "iterate (VDict kd d) = Inr (map (\<lambda>kv. VKey (fst kv)) d)"
| "iterate (VKey k) = Inl TypeError"

fun hash_all :: "val list \<Rightarrow> error + key list" where
  "hash_all [] = Inr []"
| "hash_all (VKey k # xs) = (case hash_all xs of Inl e \<Rightarrow> Inl e | Inr ks \<Rightarrow> Inr (k # ks))"
| "hash_all (x # xs) = Inl TypeError"

definition elements :: "val \<Rightarrow> error + key list" where
  "elements l = (case iterate l of Inl e \<Rightarrow> Inl e | Inr xs \<Rightarrow> hash_all xs)"

text \<open>The elements of every value, entry by entry (the generator of the first line).\<close>

fun all_elements :: "dict \<Rightarrow> error + (key \<times> key list) list" where
  "all_elements [] = Inr []"
| "all_elements ((k, l) # self) =
     (case elements l of
        Inl e \<Rightarrow> Inl e
      | Inr els \<Rightarrow> (case all_elements self of Inl e \<Rightarrow> Inl e | Inr r \<Rightarrow> Inr ((k, els) # r)))"

text \<open>\<open>dict_out[el].append(k)\<close>: the list stored under \<open>el\<close> grows by one element.\<close>

definition append_at :: "dict \<Rightarrow> key \<Rightarrow> key \<Rightarrow> error + dict" where
  "append_at dict_out el k =
     (case dict_getitem dict_out el of
        Inl e \<Rightarrow> Inl e
      | Inr (VList xs) \<Rightarrow> Inr (setitem dict_out el (VList (xs @ [VKey k])))
      | Inr _ \<Rightarrow> Inl TypeError)"

fun append_each :: "key \<Rightarrow> key list \<Rightarrow> dict \<Rightarrow> error + dict" where
  "append_each k [] dict_out = Inr dict_out"
| "append_each k (el # v) dict_out =
     (case append_at dict_out el k of Inl e \<Rightarrow> Inl e | Inr d \<Rightarrow> append_each k v d)"

fun list_reverse_loop :: "(key \<times> key list) list \<Rightarrow> dict \<Rightarrow> error + dict" where
  "list_reverse_loop [] dict_out = Inr dict_out"
| "list_reverse_loop ((k, v) # items) dict_out =
     (case append_each k v dict_out of Inl e \<Rightarrow> Inl e | Inr d \<Rightarrow> list_reverse_loop items d)"

definition list_reverse :: "(key list \<Rightarrow> key list) \<Rightarrow> dict \<Rightarrow> error + dict" where
  "list_reverse unique self =
     (case all_elements self of
        Inl e \<Rightarrow> Inl e
      | Inr items \<Rightarrow>
          let new_keys = unique (concat (map snd items));
              dict_out = dict_of (map (\<lambda>k. (k, VList [])) new_keys)
          in list_reverse_loop items dict_out)"

subsection \<open>set\_m and to\_dictdict\<close>

text \<open>
  \<^verbatim>\<open>
  def set_m(self, *args, value):
      elem = args[0]
      if len(args) == 1:
          self[elem] = value
          return self
      if elem not in self or not isinstance(self[elem], SuperDict):
          self[elem] = SuperDict()
      self[elem].set_m(*args[1:], value=value)
      return self

  def to_dictdict(self):
      dictdict = SuperDict()
      for tup, value in self.items():
          dictdict.set_m(*tup, value=value)
      return dictdict
  \<close>
  Here the dictionary under construction is passed along and returned: \<open>set_m\<close> gives
  the new contents of \<open>self\<close>. With no arguments \<open>args[0]\<close> raises \<open>IndexError\<close>.
  The call \<open>set_m(*tup, ...)\<close> unpacks the key: a tuple gives its components, a string
  its characters, and \<open>None\<close> or an integer raises \<open>TypeError\<close>.
\<close>

fun unpack :: "key \<Rightarrow> error + key list" where
  "unpack (KTup ks) = Inr ks"
| "unpack (KStr s) = Inr (map (\<lambda>c. KStr [c]) s)"
| "unpack KNone = Inl TypeError"
| "unpack (KInt i) = Inl TypeError"

fun set_m :: "dict \<Rightarrow> key list \<Rightarrow> val \<Rightarrow> error + dict" where
  "set_m self [] v = Inl IndexError"
| "set_m self [elem] v = Inr (setitem self elem v)"
| "set_m self (elem # arg # args) v =
     (let sub = (case map_of self elem of Some (VDict Super d) \<Rightarrow> d | _ \<Rightarrow> [])
      in case set_m sub (arg # args) v of
           Inl e \<Rightarrow> Inl e
         | Inr sub' \<Rightarrow> Inr (setitem self elem (VDict Super sub')))"

fun to_dictdict_loop :: "dict \<Rightarrow> dict \<Rightarrow> error + dict" where
  "to_dictdict_loop [] dictdict = Inr dictdict"
| "to_dictdict_loop ((tup, v) # items) dictdict =
     (case unpack tup of
        Inl e \<Rightarrow> Inl e
      | Inr args \<Rightarrow>
          (case set_m dictdict args v of
             Inl e \<Rightarrow> Inl e
           | Inr d \<Rightarrow> to_dictdict_loop items d))"

definition to_dictdict :: "dict \<Rightarrow> error + dict" where
  "to_dictdict self = to_dictdict_loop self []"

subsection \<open>dicts\_to\_tup and to\_dictup\<close>

text \<open>
  \<^verbatim>\<open>
  def dicts_to_tup(self, keys, content):
      if not isinstance(content, dict):
          self[tuple(keys)] = content
          return self
      for key, value in content.items():
          self.dicts_to_tup(keys + [key], value)
      return self

  def to_dictup(self):
      return SuperDict().dicts_to_tup([], self)
  \<close>
\<close>

fun dicts_to_tup :: "dict \<Rightarrow> key list \<Rightarrow> val \<Rightarrow> dict"
  and dicts_to_tup_items :: "dict \<Rightarrow> key list \<Rightarrow> (key \<times> val) list \<Rightarrow> dict" where
  "dicts_to_tup self keys (VDict kd content) = dicts_to_tup_items self keys content"
| "dicts_to_tup self keys (VKey k) = setitem self (KTup keys) (VKey k)"
| "dicts_to_tup self keys (VList xs) = setitem self (KTup keys) (VList xs)"
| "dicts_to_tup_items self keys [] = self"
| "dicts_to_tup_items self keys ((key, v) # content) =
     dicts_to_tup_items (dicts_to_tup self (keys @ [key]) v) keys content"

definition to_dictup :: "dict \<Rightarrow> dict" where
  "to_dictup self = dicts_to_tup [] [] (VDict Super self)"

section \<open>Facts about the dictionary operations\<close>

lemma map_of_setitem: "map_of (setitem d k v) = (map_of d)(k \<mapsto> v)"
  by (induction d) (auto simp: fun_eq_iff)

lemma keys_setitem: "set (keys_l (setitem d k v)) = insert k (set (keys_l d))"
  unfolding keys_l_def by (induction d) force+

lemma distinct_setitem: "distinct (keys_l d) \<Longrightarrow> distinct (keys_l (setitem d k v))"
proof (induction d)
  case Nil
  then show ?case by (simp add: keys_l_def)
next
  case (Cons p d)
  obtain k' v' where p: "p = (k', v')" by (cases p)
  from Cons.prems p have k': "k' \<notin> set (keys_l d)" and d: "distinct (keys_l d)"
    by (auto simp: keys_l_def)
  show ?case
  proof (cases "k' = k")
    case True
    with p k' d show ?thesis by (simp add: keys_l_def)
  next
    case False
    have "k' \<notin> set (keys_l (setitem d k v))"
      using False k' by (simp add: keys_setitem)
    with False p Cons.IH [OF d] show ?thesis by (simp add: keys_l_def)
  qed
qed

lemma map_of_dict_update:
  "distinct (keys_l other) \<Longrightarrow> map_of (dict_update d other) = map_of d ++ map_of other"
  unfolding dict_update_def
proof (induction other arbitrary: d)
  case Nil
  then show ?case by simp
next
  case (Cons p other)
  obtain k v where p: "p = (k, v)" by (cases p)
  from Cons.prems p have k: "k \<notin> fst ` set other" and d: "distinct (keys_l other)"
    by (auto simp: keys_l_def)
  from k have "k \<notin> dom (map_of other)"
    by (simp add: dom_map_of_conv_image_fst)
  then have "(map_of d)(k \<mapsto> v) ++ map_of other = map_of d ++ (map_of other)(k \<mapsto> v)"
    by (simp add: map_add_upd_left)
  moreover have "map_of (fold (\<lambda>(k, v) acc. setitem acc k v) other (setitem d k v)) =
      map_of (setitem d k v) ++ map_of other"
    by (rule Cons.IH [OF d])
  ultimately show ?case
    unfolding p by (simp only: fold_simps prod.case map_of_setitem map_of.simps fst_conv snd_conv)
qed

lemma keys_dict_update:
  "set (keys_l (dict_update d other)) = set (keys_l d) \<union> set (keys_l other)"
proof -
  have "set (keys_l (fold (\<lambda>(k, v) acc. setitem acc k v) other d)) =
        set (keys_l d) \<union> fst ` set other" for d
  proof (induction other arbitrary: d)
    case Nil
    then show ?case by simp
  next
    case (Cons p other)
    then show ?case by (cases p) (simp add: keys_setitem)
  qed
  then show ?thesis by (simp add: dict_update_def keys_l_def [of other])
qed

lemma distinct_dict_update:
  "distinct (keys_l d) \<Longrightarrow> distinct (keys_l (dict_update d other))"
  unfolding dict_update_def
proof (induction other arbitrary: d)
  case Nil
  then show ?case by simp
next
  case (Cons p other)
  then show ?case by (cases p) (simp add: distinct_setitem)
qed

lemma map_of_dict_of_const:
  "map_of (dict_of (map (\<lambda>k. (k, c)) ks)) k = (if k \<in> set ks then Some c else None)"
proof -
  have "map_of (fold (\<lambda>(k, v) acc. setitem acc k v) (map (\<lambda>k. (k, c)) ks) d) k =
        (if k \<in> set ks then Some c else map_of d k)" for d
    by (induction ks arbitrary: d) (auto simp: map_of_setitem)
  then show ?thesis
    by (simp add: dict_of_def dict_update_def)
qed

lemma keys_dict_of: "set (keys_l (dict_of kvs)) = fst ` set kvs"
  by (simp add: dict_of_def keys_dict_update) (simp add: keys_l_def)

lemma distinct_dict_of: "distinct (keys_l (dict_of kvs))"
  using distinct_dict_update [of "[]" kvs] by (simp add: dict_of_def keys_l_def)

section \<open>fill\_with\_default\<close>

lemma map_of_fill_with_default:
  assumes "distinct (keys_l self)"
  shows "map_of (fill_with_default self keys dflt) k =
           (case map_of self k of
              Some v \<Rightarrow> Some v
            | None \<Rightarrow> if k \<in> set keys then Some dflt else None)"
  using assms
  by (simp add: fill_with_default_def map_of_dict_update map_add_def map_of_dict_of_const
      split: option.splits)

lemma keys_fill_with_default:
  "set (keys_l (fill_with_default self keys dflt)) = set keys \<union> set (keys_l self)"
  by (simp add: fill_with_default_def keys_dict_update keys_dict_of image_image)

text \<open>
  Claim C7. For a dictionary \<open>self\<close> (its keys distinct), a list \<open>keys\<close> and a default,
  the result of \<open>fill_with_default\<close> is again a dictionary, it contains every key of
  \<open>keys\<close>, a key of \<open>keys\<close> that \<open>self\<close> has keeps the value \<open>self\<close> gives it, and a key of
  \<open>keys\<close> that \<open>self\<close> lacks is mapped to the default.
\<close>

theorem fill_with_default_requested:
  assumes "distinct (keys_l self)"
  shows "distinct (keys_l (fill_with_default self keys dflt)) \<and>
         set keys \<subseteq> set (keys_l (fill_with_default self keys dflt)) \<and>
         (\<forall>k \<in> set keys.
            map_of (fill_with_default self keys dflt) k =
              (case map_of self k of Some v \<Rightarrow> Some v | None \<Rightarrow> Some dflt))"
proof -
  have "distinct (keys_l (fill_with_default self keys dflt))"
    by (simp add: fill_with_default_def distinct_dict_update distinct_dict_of)
  moreover have "set keys \<subseteq> set (keys_l (fill_with_default self keys dflt))"
    by (simp add: keys_fill_with_default)
  moreover have "\<forall>k \<in> set keys.
            map_of (fill_with_default self keys dflt) k =
              (case map_of self k of Some v \<Rightarrow> Some v | None \<Rightarrow> Some dflt)"
    using assms by (simp add: map_of_fill_with_default split: option.splits)
  ultimately show ?thesis by blast
qed

theorem fill_with_default_requested_witness:
  "fill_with_default [(KStr ''a'', VKey (KInt 5))] [KStr ''a'', KStr ''b'', KStr ''c''] (VKey (KInt 0)) =
     [(KStr ''a'', VKey (KInt 5)), (KStr ''b'', VKey (KInt 0)), (KStr ''c'', VKey (KInt 0))] \<and>
   map_of (fill_with_default [(KStr ''a'', VKey (KInt 5))] [KStr ''a'', KStr ''b'', KStr ''c''] (VKey (KInt 0)))
     (KStr ''b'') = Some (VKey (KInt 0))"
  using fill_with_default_requested
    [of "[(KStr ''a'', VKey (KInt 5))]" "[KStr ''a'', KStr ''b'', KStr ''c'']" "VKey (KInt 0)"]
  by (simp add: fill_with_default_def dict_of_def dict_update_def keys_l_def)

text \<open>
  Claim C10. The result of \<open>fill_with_default\<close> also keeps the entries of \<open>self\<close> whose
  keys were not requested: its key set is the union of \<open>keys\<close> and the keys of \<open>self\<close>,
  and every entry of \<open>self\<close> is an entry of the result.
\<close>

theorem fill_with_default_preserves:
  assumes "distinct (keys_l self)"
  shows "set (keys_l (fill_with_default self keys dflt)) = set keys \<union> set (keys_l self) \<and>
         (\<forall>k v. map_of self k = Some v \<longrightarrow>
                map_of (fill_with_default self keys dflt) k = Some v)"
  using assms by (simp add: map_of_fill_with_default keys_fill_with_default)

theorem fill_with_default_preserves_witness:
  "set (keys_l (fill_with_default [(KStr ''z'', VKey (KInt 5))] [KStr ''a''] (VKey (KInt 0)))) =
     {KStr ''a'', KStr ''z''} \<and>
   map_of (fill_with_default [(KStr ''z'', VKey (KInt 5))] [KStr ''a''] (VKey (KInt 0))) (KStr ''z'') =
     Some (VKey (KInt 5))"
  using fill_with_default_preserves
    [of "[(KStr ''z'', VKey (KInt 5))]" "[KStr ''a'']" "VKey (KInt 0)"]
  by (auto simp: keys_l_def)

section \<open>get\_m\<close>

text \<open>
  Claim C4. The claim is that \<open>get_m\<close> returns \<open>None\<close> instead of raising whenever a
  step of the path is absent or the value reached is not indexable, which is also what
  the docstring of \<open>get_m\<close> promises (a safe search that gives \<open>None\<close> for what does not
  exist). The code catches \<open>KeyError\<close> only. In \<open>{'a': 1}\<close> the path \<open>'a', 'b'\<close> reaches
  the integer \<open>1\<close>, which is not indexable; the subscription \<open>1['b']\<close> raises \<open>TypeError\<close>,
  and \<open>get_m\<close> raises it to the caller instead of returning \<open>None\<close>.
\<close>

theorem get_m_not_indexable_raises:
  "get_m [(KStr ''a'', VKey (KInt 1))] [KStr ''a'', KStr ''b''] = Inl TypeError \<and>
   get_m [(KStr ''a'', VKey (KInt 1))] [KStr ''a'', KStr ''b''] \<noteq> Inr (VKey KNone)"
  by (simp add: get_m_def dict_getitem_def)

section \<open>list\_reverse\<close>

text \<open>A dictionary whose values are all lists of hashable elements, built from the
  list \<open>items\<close> of its keys with the elements of their lists.\<close>

lemma hash_all_keys: "hash_all (map VKey es) = Inr es"
  by (induction es) auto

lemma all_elements_lists:
  "all_elements (map (\<lambda>(k, es). (k, VList (map VKey es))) items) = Inr items"
  by (induction items) (auto simp: elements_def hash_all_keys)

text \<open>The invariant of the two loops: \<open>dict_out\<close> has the keys \<open>K\<close>, and under \<open>e\<close> the
  list of the keys \<open>g e\<close>.\<close>

definition holds_lists :: "dict \<Rightarrow> key set \<Rightarrow> (key \<Rightarrow> key list) \<Rightarrow> bool" where
  "holds_lists d K g \<longleftrightarrow>
     distinct (keys_l d) \<and> set (keys_l d) = K \<and>
     (\<forall>e \<in> K. map_of d e = Some (VList (map VKey (g e))))"

lemma append_at_holds:
  assumes "holds_lists d K g" and "el \<in> K"
  shows "\<exists>d'. append_at d el k = Inr d' \<and> holds_lists d' K (g(el := g el @ [k]))"
proof -
  from assms have el: "map_of d el = Some (VList (map VKey (g el)))"
    by (simp add: holds_lists_def)
  let ?d' = "setitem d el (VList (map VKey (g el) @ [VKey k]))"
  have "append_at d el k = Inr ?d'"
    using el by (simp add: append_at_def dict_getitem_def)
  moreover have "holds_lists ?d' K (g(el := g el @ [k]))"
    using assms
    by (auto simp: holds_lists_def distinct_setitem keys_setitem map_of_setitem)
  ultimately show ?thesis by blast
qed

lemma append_each_holds:
  "holds_lists d K g \<Longrightarrow> set es \<subseteq> K \<Longrightarrow>
   \<exists>d'. append_each k es d = Inr d' \<and>
        holds_lists d' K (\<lambda>e. g e @ replicate (count_list es e) k)"
proof (induction es arbitrary: d g)
  case Nil
  then show ?case by simp
next
  case (Cons el es)
  from Cons.prems have "el \<in> K" and es: "set es \<subseteq> K" by auto
  from append_at_holds [OF Cons.prems(1) this(1), of k]
  obtain d1 where d1: "append_at d el k = Inr d1"
    and h1: "holds_lists d1 K (g(el := g el @ [k]))"
    by blast
  from Cons.IH [OF h1 es]
  obtain d2 where d2: "append_each k es d1 = Inr d2"
    and h2: "holds_lists d2 K (\<lambda>e. (g(el := g el @ [k])) e @ replicate (count_list es e) k)"
    by blast
  have "(\<lambda>e. (g(el := g el @ [k])) e @ replicate (count_list es e) k) =
        (\<lambda>e. g e @ replicate (count_list (el # es) e) k)"
    by (auto simp: fun_eq_iff)
  with d1 d2 h2 show ?case by simp
qed

lemma list_reverse_loop_holds:
  "holds_lists d K g \<Longrightarrow> \<forall>(k, es) \<in> set items. set es \<subseteq> K \<Longrightarrow>
   \<exists>d'. list_reverse_loop items d = Inr d' \<and>
        holds_lists d' K
          (\<lambda>e. g e @ concat (map (\<lambda>(k, es). replicate (count_list es e) k) items))"
proof (induction items arbitrary: d g)
  case Nil
  then show ?case by simp
next
  case (Cons p items)
  obtain k es where p: "p = (k, es)" by (cases p)
  from Cons.prems p have es: "set es \<subseteq> K" and rest: "\<forall>(k, es) \<in> set items. set es \<subseteq> K"
    by auto
  from append_each_holds [OF Cons.prems(1) es, of k]
  obtain d1 where d1: "append_each k es d = Inr d1"
    and h1: "holds_lists d1 K (\<lambda>e. g e @ replicate (count_list es e) k)"
    by blast
  from Cons.IH [OF h1 rest]
  obtain d2 where d2: "list_reverse_loop items d1 = Inr d2"
    and h2: "holds_lists d2 K
          (\<lambda>e. (g e @ replicate (count_list es e) k) @
                concat (map (\<lambda>(k, es). replicate (count_list es e) k) items))"
    by blast
  from d1 d2 h2 p show ?case by simp
qed

lemma holds_lists_initial:
  assumes "lists_distinct unique"
  shows "holds_lists (dict_of (map (\<lambda>k. (k, VList [])) (unique xs))) (set xs) (\<lambda>e. [])"
  using assms
  by (auto simp: holds_lists_def distinct_dict_of keys_dict_of map_of_dict_of_const
      lists_distinct_def image_image)

lemma count_list_distinct: "distinct es \<Longrightarrow> count_list es e = (if e \<in> set es then 1 else 0)"
  by (induction es) auto

lemma owners_distinct:
  "\<forall>(k, es) \<in> set items. distinct es \<Longrightarrow>
   concat (map (\<lambda>(k, es). replicate (count_list es e) k) items) =
   map fst (filter (\<lambda>(k, es). e \<in> set es) items)"
  by (induction items) (auto simp: count_list_distinct)

text \<open>
  Claim C9, as the code has it. Let \<open>self\<close> be a dictionary whose values are all lists,
  the entry of key \<open>k\<close> holding the elements \<open>es\<close>. Then \<open>list_reverse\<close> returns a dictionary
  whose keys are distinct and are exactly the elements of the lists. Under an element
  \<open>e\<close> it holds the keys of \<open>self\<close> whose list contains \<open>e\<close>, in the order of \<open>self\<close>, each
  key once for every occurrence of \<open>e\<close> in its list; so each key once when no list has
  an element twice.
\<close>

theorem list_reverse_lists:
  assumes "lists_distinct unique"
  shows "\<exists>out. list_reverse unique (map (\<lambda>(k, es). (k, VList (map VKey es))) items) = Inr out \<and>
           distinct (keys_l out) \<and>
           set (keys_l out) = (\<Union>(k, es) \<in> set items. set es) \<and>
           (\<forall>e \<in> set (keys_l out).
              map_of out e =
                Some (VList (map VKey
                  (concat (map (\<lambda>(k, es). replicate (count_list es e) k) items))))) \<and>
           ((\<forall>(k, es) \<in> set items. distinct es) \<longrightarrow>
            (\<forall>e \<in> set (keys_l out).
              map_of out e =
                Some (VList (map VKey (map fst (filter (\<lambda>(k, es). e \<in> set es) items))))))"
proof -
  let ?xs = "concat (map snd items)"
  let ?K = "set ?xs"
  have K: "?K = (\<Union>(k, es) \<in> set items. set es)" by auto
  have sub: "\<forall>(k, es) \<in> set items. set es \<subseteq> ?K" by auto
  from list_reverse_loop_holds [OF holds_lists_initial [OF assms, of ?xs] sub]
  obtain out where out: "list_reverse_loop items (dict_of (map (\<lambda>k. (k, VList [])) (unique ?xs))) = Inr out"
    and h: "holds_lists out ?K
          (\<lambda>e. [] @ concat (map (\<lambda>(k, es). replicate (count_list es e) k) items))"
    by blast
  have f1: "list_reverse unique (map (\<lambda>(k, es). (k, VList (map VKey es))) items) = Inr out"
    using out by (simp add: list_reverse_def all_elements_lists)
  from h have f2: "distinct (keys_l out)" and keys: "set (keys_l out) = ?K"
    and vals: "\<forall>e \<in> ?K. map_of out e =
        Some (VList (map VKey (concat (map (\<lambda>(k, es). replicate (count_list es e) k) items))))"
    by (simp_all add: holds_lists_def)
  from keys K have f3: "set (keys_l out) = (\<Union>(k, es) \<in> set items. set es)"
    by (rule trans)
  from vals have f4: "\<forall>e \<in> set (keys_l out). map_of out e =
        Some (VList (map VKey (concat (map (\<lambda>(k, es). replicate (count_list es e) k) items))))"
    unfolding keys .
  have f5: "\<forall>e \<in> set (keys_l out). map_of out e =
        Some (VList (map VKey (map fst (filter (\<lambda>(k, es). e \<in> set es) items))))"
    if "\<forall>(k, es) \<in> set items. distinct es"
    using f4 owners_distinct [OF that] by simp
  from f1 f2 f3 f4 f5 show ?thesis by blast
qed

theorem list_reverse_lists_witness:
  "lists_distinct (remdups :: key list \<Rightarrow> key list) \<and>
   list_reverse remdups
     [(KStr ''x'', VList [VKey (KStr ''a''), VKey (KStr ''b'')]),
      (KStr ''y'', VList [VKey (KStr ''b'')])] =
   Inr [(KStr ''a'', VList [VKey (KStr ''x'')]),
        (KStr ''b'', VList [VKey (KStr ''x''), VKey (KStr ''y'')])]"
proof -
  have u: "lists_distinct (remdups :: key list \<Rightarrow> key list)"
    by (simp add: lists_distinct_def)
  from list_reverse_lists [OF u, of "[(KStr ''x'', [KStr ''a'', KStr ''b'']), (KStr ''y'', [KStr ''b''])]"]
  show ?thesis
    using u
    by (simp add: list_reverse_def elements_def dict_of_def dict_update_def append_at_def
        dict_getitem_def)
qed

text \<open>
  The claim as the specification states it fails where a list has an element twice:
  for \<open>{'x': ['a', 'a']}\<close> the only key whose list contains \<open>'a'\<close> is \<open>'x'\<close>, and the
  result holds \<open>['x', 'x']\<close> under \<open>'a'\<close>, not the list \<open>['x']\<close> of those keys.
\<close>

theorem list_reverse_repeats_key:
  "list_reverse remdups [(KStr ''x'', VList [VKey (KStr ''a''), VKey (KStr ''a'')])] =
     Inr [(KStr ''a'', VList [VKey (KStr ''x''), VKey (KStr ''x'')])] \<and>
   list_reverse remdups [(KStr ''x'', VList [VKey (KStr ''a''), VKey (KStr ''a'')])] \<noteq>
     Inr [(KStr ''a'', VList [VKey (KStr ''x'')])]"
  by (simp add: list_reverse_def elements_def dict_of_def dict_update_def append_at_def
      dict_getitem_def)

end
